theory Spec2Isabelle
  imports Complex_Main "HOL-Library.AList"
begin

text \<open>
  A shallow embedding of the fetch core of the travel-advisors data extractor:
  the response cache (\<open>libs/file-cache.js\<close>), the proxy rotation
  (\<open>libs/websearch-proxy.js\<close>), the fetch client (\<open>libs/proxy-fetch.js\<close>) and
  the retry and batching logic of \<open>scrape-full-advisors.js\<close>.

  Conventions of the embedding.
  \<^item> A JavaScript value is a \<open>json\<close>; \<open>JUndefined\<close> is \<open>undefined\<close>. Numbers are
    integers (\<open>int\<close>): fractions, exponents, \<open>NaN\<close> and the rounding of doubles are
    outside the model.
  \<^item> A string is a \<open>string\<close>, read as the bytes of well-formed text; the four-digit
    hexadecimal escape is modelled for the ASCII range.
  \<^item> The file system under the cache directory is a map from paths to contents, and
    the clock (\<open>Date.now()\<close>) is an explicit \<open>int\<close> argument, in milliseconds.
  \<^item> What the JavaScript runtime does outside this fragment is a parameter: the record
    \<open>runtime\<close> holds the SHA-256 digest and the comparison of a number with a string.
\<close>

section \<open>JavaScript values and \<open>JSON.stringify\<close>\<close>

datatype json =
    JUndefined
  | JNull
  | JBool bool
  | JNum int
  | JStr string
  | JArr "json list"
  | JObj "(string \<times> json) list"

definition digit_char :: "nat \<Rightarrow> char" where
  "digit_char d = char_of (48 + d)"

function show_digits :: "int \<Rightarrow> string" where
  "show_digits n =
     (if n < 10 then [digit_char (nat n)]
      else show_digits (n div 10) @ [digit_char (nat (n mod 10))])"
  by pat_completeness auto
termination
  by (relation "measure nat") auto

declare show_digits.simps [simp del]

definition show_int :: "int \<Rightarrow> string" where
  "show_int i = (if i < 0 then CHR ''-'' # show_digits (- i) else show_digits i)"

definition hex_char :: "nat \<Rightarrow> char" where
  "hex_char d = (if d < 10 then char_of (48 + d) else char_of (87 + d))"

definition quote_char :: "char \<Rightarrow> string" where
  "quote_char c =
     (if c = CHR 0x22 then [CHR 0x5C, CHR 0x22]
      else if c = CHR 0x5C then [CHR 0x5C, CHR 0x5C]
      else if c = CHR 0x08 then [CHR 0x5C, CHR ''b'']
      else if c = CHR 0x0C then [CHR 0x5C, CHR ''f'']
      else if c = CHR 0x0A then [CHR 0x5C, CHR ''n'']
      else if c = CHR 0x0D then [CHR 0x5C, CHR ''r'']
      else if c = CHR 0x09 then [CHR 0x5C, CHR ''t'']
      else if (of_char c :: nat) < 32
        then [CHR 0x5C, CHR ''u'', CHR ''0'', CHR ''0'',
              hex_char (of_char c div 16), hex_char (of_char c mod 16)]
      else [c])"

definition quote :: "string \<Rightarrow> string" where
  "quote s = CHR 0x22 # concat (map quote_char s) @ [CHR 0x22]"

fun join :: "string \<Rightarrow> string list \<Rightarrow> string" where
  "join sep [] = []"
| "join sep [x] = x"
| "join sep (x # y # ys) = x @ sep @ join sep (y # ys)"


fun JSON_stringify :: "json \<Rightarrow> string option"
  and stringify_elems :: "json list \<Rightarrow> string list"
  and stringify_members :: "(string \<times> json) list \<Rightarrow> string list"
where
  "JSON_stringify JUndefined = None"
| "JSON_stringify JNull = Some ''null''"
| "JSON_stringify (JBool b) = Some (if b then ''true'' else ''false'')"
| "JSON_stringify (JNum n) = Some (show_int n)"
| "JSON_stringify (JStr s) = Some (quote s)"
| "JSON_stringify (JArr xs) = Some (''['' @ join '','' (stringify_elems xs) @ '']'')"
| "JSON_stringify (JObj kvs) = Some (''{'' @ join '','' (stringify_members kvs) @ ''}'')"
| "stringify_elems [] = []"
| "stringify_elems (x # xs) =
     (case JSON_stringify x of None \<Rightarrow> ''null'' | Some t \<Rightarrow> t) # stringify_elems xs"
| "stringify_members [] = []"
| "stringify_members ((k, v) # kvs) =
     (case JSON_stringify v of
        None \<Rightarrow> stringify_members kvs
      | Some t \<Rightarrow> (quote k @ '':'' @ t) # stringify_members kvs)"




section \<open>\<open>JSON.parse\<close>\<close>

datatype parse_error = SyntaxError | OutsideFragment

definition is_ws :: "char \<Rightarrow> bool" where
  "is_ws c \<longleftrightarrow> c = CHR '' '' \<or> c = CHR 0x09 \<or> c = CHR 0x0A \<or> c = CHR 0x0D"

definition skip_ws :: "string \<Rightarrow> string" where
  "skip_ws s = dropWhile is_ws s"

definition is_digit :: "char \<Rightarrow> bool" where
  "is_digit c \<longleftrightarrow> 48 \<le> (of_char c :: nat) \<and> (of_char c :: nat) \<le> 57"

definition digit_val :: "char \<Rightarrow> int" where
  "digit_val c = int (of_char c) - 48"

definition digits_val :: "string \<Rightarrow> int" where
  "digits_val ds = foldl (\<lambda>a c. 10 * a + digit_val c) 0 ds"

definition hex_val :: "char \<Rightarrow> nat option" where
  "hex_val c =
     (let n = (of_char c :: nat) in
      if 48 \<le> n \<and> n \<le> 57 then Some (n - 48)
      else if 97 \<le> n \<and> n \<le> 102 then Some (n - 87)
      else if 65 \<le> n \<and> n \<le> 70 then Some (n - 55)
      else None)"

definition unicode_escape :: "char \<Rightarrow> char \<Rightarrow> char \<Rightarrow> char \<Rightarrow> parse_error + char" where
  "unicode_escape a b c d =
     (case (hex_val a, hex_val b, hex_val c, hex_val d) of
        (Some x, Some y, Some z, Some w) \<Rightarrow>
          (let n = ((x * 16 + y) * 16 + z) * 16 + w
           in if n < 128 then Inr (char_of n) else Inl OutsideFragment)
      | _ \<Rightarrow> Inl SyntaxError)"

definition simple_escape :: "char \<Rightarrow> char option" where
  "simple_escape e =
     (if e = CHR 0x22 then Some (CHR 0x22)
      else if e = CHR 0x5C then Some (CHR 0x5C)
      else if e = CHR ''/'' then Some (CHR ''/'')
      else if e = CHR ''b'' then Some (CHR 0x08)
      else if e = CHR ''f'' then Some (CHR 0x0C)
      else if e = CHR ''n'' then Some (CHR 0x0A)
      else if e = CHR ''r'' then Some (CHR 0x0D)
      else if e = CHR ''t'' then Some (CHR 0x09)
      else None)"

definition cons_char :: "char \<Rightarrow> parse_error + string \<times> string \<Rightarrow> parse_error + string \<times> string" where
  "cons_char c p = (case p of Inl e \<Rightarrow> Inl e | Inr (s, r) \<Rightarrow> Inr (c # s, r))"

fun parse_chars :: "string \<Rightarrow> parse_error + string \<times> string" where
  "parse_chars [] = Inl SyntaxError"
| "parse_chars (c # cs) =
     (if c = CHR 0x22 then Inr ([], cs)
      else if c = CHR 0x5C then
        (case cs of
           [] \<Rightarrow> Inl SyntaxError
         | e # r \<Rightarrow>
             (if e = CHR ''u'' then
                (case r of
                   a # b # c' # d # r' \<Rightarrow>
                     (case unicode_escape a b c' d of
                        Inl err \<Rightarrow> Inl err
                      | Inr u \<Rightarrow> cons_char u (parse_chars r'))
                 | _ \<Rightarrow> Inl SyntaxError)
              else
                (case simple_escape e of
                   None \<Rightarrow> Inl SyntaxError
                 | Some u \<Rightarrow> cons_char u (parse_chars r))))
      else if (of_char c :: nat) < 32 then Inl SyntaxError
      else cons_char c (parse_chars cs))"

definition parse_number :: "string \<Rightarrow> parse_error + json \<times> string" where
  "parse_number s =
     (let neg = (case s of c # _ \<Rightarrow> c = CHR ''-'' | [] \<Rightarrow> False);
          s1 = (if neg then tl s else s);
          ds = takeWhile is_digit s1;
          r = dropWhile is_digit s1
      in if ds = [] then Inl SyntaxError
         else if hd ds = CHR ''0'' \<and> length ds > 1 then Inl SyntaxError
         else if (case r of c # _ \<Rightarrow> c = CHR ''.'' \<or> c = CHR ''e'' \<or> c = CHR ''E'' | [] \<Rightarrow> False)
           then Inl OutsideFragment
         else Inr (JNum (if neg then - digits_val ds else digits_val ds), r))"

fun strip_prefix :: "string \<Rightarrow> string \<Rightarrow> string option" where
  "strip_prefix [] s = Some s"
| "strip_prefix (p # ps) [] = None"
| "strip_prefix (p # ps) (c # cs) = (if p = c then strip_prefix ps cs else None)"

definition parse_literal :: "string \<Rightarrow> parse_error + json \<times> string" where
  "parse_literal s =
     (case strip_prefix ''true'' s of
        Some r \<Rightarrow> Inr (JBool True, r)
      | None \<Rightarrow>
          (case strip_prefix ''false'' s of
             Some r \<Rightarrow> Inr (JBool False, r)
           | None \<Rightarrow>
               (case strip_prefix ''null'' s of
                  Some r \<Rightarrow> Inr (JNull, r)
                | None \<Rightarrow> Inl SyntaxError)))"

definition obj_of_members :: "(string \<times> json) list \<Rightarrow> (string \<times> json) list" where
  "obj_of_members kvs = foldl (\<lambda>acc kv. AList.update (fst kv) (snd kv) acc) [] kvs"

lemma length_skip_ws: "length (skip_ws s) \<le> length s"
  by (simp add: skip_ws_def length_dropWhile_le)

lemma parse_chars_length: "parse_chars s = Inr (t, r) \<Longrightarrow> length r < length s"
proof (induction s arbitrary: t r rule: parse_chars.induct)
  case 1
  then show ?case by simp
next
  case (2 c cs)
  then show ?case
    by (auto simp: cons_char_def split: if_splits list.splits sum.splits option.splits prod.splits)
      fastforce+
qed

function parse_value :: "string \<Rightarrow> parse_error + json \<times> string"
  and parse_elems :: "string \<Rightarrow> parse_error + json list \<times> string"
  and parse_members :: "string \<Rightarrow> parse_error + (string \<times> json) list \<times> string"
where
  "parse_value s =
     (case skip_ws s of
        [] \<Rightarrow> Inl SyntaxError
      | c # r \<Rightarrow>
          (if c = CHR ''{'' then
             (case skip_ws r of
                [] \<Rightarrow> Inl SyntaxError
              | c' # r' \<Rightarrow>
                  (if c' = CHR ''}'' then Inr (JObj [], r')
                   else (case parse_members r of
                           Inl e \<Rightarrow> Inl e
                         | Inr (kvs, r'') \<Rightarrow> Inr (JObj (obj_of_members kvs), r''))))
           else if c = CHR ''['' then
             (case skip_ws r of
                [] \<Rightarrow> Inl SyntaxError
              | c' # r' \<Rightarrow>
                  (if c' = CHR '']'' then Inr (JArr [], r')
                   else (case parse_elems r of
                           Inl e \<Rightarrow> Inl e
                         | Inr (vs, r'') \<Rightarrow> Inr (JArr vs, r''))))
           else if c = CHR 0x22 then
             (case parse_chars r of
                Inl e \<Rightarrow> Inl e
              | Inr (str, r') \<Rightarrow> Inr (JStr str, r'))
           else if c = CHR ''-'' \<or> is_digit c then parse_number (c # r)
           else parse_literal (c # r)))"
| "parse_elems s =
     (case parse_value s of
        Inl e \<Rightarrow> Inl e
      | Inr (v, r) \<Rightarrow>
          (case skip_ws r of
             [] \<Rightarrow> Inl SyntaxError
           | c # r' \<Rightarrow>
               (if c = CHR '']'' then Inr ([v], r')
                else if c = CHR '','' \<and> length r' < length s then
                  (case parse_elems r' of
                     Inl e \<Rightarrow> Inl e
                   | Inr (vs, r'') \<Rightarrow> Inr (v # vs, r''))
                else Inl SyntaxError)))"
| "parse_members s =
     (case skip_ws s of
        [] \<Rightarrow> Inl SyntaxError
      | q # r0 \<Rightarrow>
          (if q \<noteq> CHR 0x22 then Inl SyntaxError
           else (case parse_chars r0 of
                   Inl e \<Rightarrow> Inl e
                 | Inr (k, r1) \<Rightarrow>
                     (case skip_ws r1 of
                        [] \<Rightarrow> Inl SyntaxError
                      | colon # r2 \<Rightarrow>
                          (if colon \<noteq> CHR '':'' then Inl SyntaxError
                           else (case parse_value r2 of
                                   Inl e \<Rightarrow> Inl e
                                 | Inr (v, r3) \<Rightarrow>
                                     (case skip_ws r3 of
                                        [] \<Rightarrow> Inl SyntaxError
                                      | c # r4 \<Rightarrow>
                                          (if c = CHR ''}'' then Inr ([(k, v)], r4)
                                           else if c = CHR '','' \<and> length r4 < length s then
                                             (case parse_members r4 of
                                                Inl e \<Rightarrow> Inl e
                                              | Inr (kvs, r5) \<Rightarrow> Inr ((k, v) # kvs, r5))
                                           else Inl SyntaxError))))))))"
  by pat_completeness auto

termination
proof (relation "measure (\<lambda>x. case x of
           Inl s \<Rightarrow> 2 * length s
         | Inr (Inl s) \<Rightarrow> 2 * length s + 1
         | Inr (Inr s) \<Rightarrow> 2 * length s + 1)", goal_cases)
  case 1
  then show ?case by simp
next
  case (2 s c r c' r')
  then show ?case using length_skip_ws [of s] by simp
next
  case (3 s c r c' r')
  then show ?case using length_skip_ws [of s] by simp
next
  case (4 s)
  then show ?case by simp
next
  case (5 s x v r c r')
  then show ?case by simp
next
  case (6 s q r0 x k r1 colon r2)
  then show ?case
    using length_skip_ws [of s] length_skip_ws [of r1] parse_chars_length [of r0 k r1] by simp
next
  case (7 s q r0 x k r1 colon r2 y v r3 c r4)
  then show ?case by simp
qed

definition JSON_parse :: "string \<Rightarrow> parse_error + json" where
  "JSON_parse s =
     (case parse_value s of
        Inl e \<Rightarrow> Inl e
      | Inr (v, r) \<Rightarrow> if skip_ws r = [] then Inr v else Inl SyntaxError)"


text \<open>The values that \<open>JSON.stringify\<close> and \<open>JSON.parse\<close> carry unchanged: no
  \<open>undefined\<close> inside, and no object with a repeated key.\<close>

fun serializable :: "json \<Rightarrow> bool"
  and serializable_elems :: "json list \<Rightarrow> bool"
  and serializable_members :: "(string \<times> json) list \<Rightarrow> bool"
where
  "serializable JUndefined = False"
| "serializable JNull = True"
| "serializable (JBool b) = True"
| "serializable (JNum n) = True"
| "serializable (JStr s) = True"
| "serializable (JArr xs) = serializable_elems xs"
| "serializable (JObj kvs) = (distinct (map fst kvs) \<and> serializable_members kvs)"
| "serializable_elems [] = True"
| "serializable_elems (x # xs) = (serializable x \<and> serializable_elems xs)"
| "serializable_members [] = True"
| "serializable_members ((k, v) # kvs) = (serializable v \<and> serializable_members kvs)"

definition follow_ok :: "string \<Rightarrow> bool" where
  "follow_ok r =
     (case r of [] \<Rightarrow> True
      | c # _ \<Rightarrow> \<not> is_digit c \<and> c \<noteq> CHR ''.'' \<and> c \<noteq> CHR ''e'' \<and> c \<noteq> CHR ''E'')"


section \<open>The response cache (\<open>libs/file-cache.js\<close>)\<close>

record runtime =
  sha256_hex :: "string \<Rightarrow> string"
  gt_string :: "int \<Rightarrow> string \<Rightarrow> bool"

type_synonym files = "string \<rightharpoonup> string"

definition hex_upper :: "nat \<Rightarrow> char" where
  "hex_upper d = (if d < 10 then char_of (48 + d) else char_of (55 + d))"

definition unreserved :: "char \<Rightarrow> bool" where
  "unreserved c \<longleftrightarrow>
     (let n = (of_char c :: nat)
      in (65 \<le> n \<and> n \<le> 90) \<or> (97 \<le> n \<and> n \<le> 122) \<or> (48 \<le> n \<and> n \<le> 57)
         \<or> c \<in> set [CHR ''-'', CHR ''_'', CHR ''.'', CHR ''!'', CHR ''~'', CHR ''*'', CHR 0x27,
                     CHR ''('', CHR '')''])"

definition encodeURIComponent :: "string \<Rightarrow> string" where
  "encodeURIComponent s =
     concat (map (\<lambda>c. if unreserved c then [c]
                        else [CHR ''%'', hex_upper (of_char c div 16), hex_upper (of_char c mod 16)]) s)"

definition getFilePath :: "string \<Rightarrow> string \<Rightarrow> string" where
  "getFilePath cacheDir key = cacheDir @ ''/'' @ encodeURIComponent key @ ''.cache''"

definition isString :: "json \<Rightarrow> bool" where
  "isString v = (case v of JStr _ \<Rightarrow> True | _ \<Rightarrow> False)"

definition cache_entry :: "json \<Rightarrow> int \<Rightarrow> json" where
  "cache_entry v expiresAt =
     JObj [(''type'', JStr (if isString v then ''string'' else ''json'')),
           (''value'', if isString v then v
                       else (case JSON_stringify v of None \<Rightarrow> JUndefined | Some t \<Rightarrow> JStr t)),
           (''expiresAt'', JNum expiresAt)]"

definition FileCache_set :: "string \<Rightarrow> int \<Rightarrow> files \<Rightarrow> string \<Rightarrow> json \<Rightarrow> int \<Rightarrow> files" where
  "FileCache_set cacheDir now fs key v ttlSeconds =
     (if ttlSeconds \<le> 0 then fs
      else
        (let expiresAt = now + ttlSeconds * 1000;
             data = cache_entry v expiresAt;
             filePath = getFilePath cacheDir key
         in case JSON_stringify data of
              None \<Rightarrow> fs
            | Some content \<Rightarrow> fs(filePath \<mapsto> content)))"

definition get_prop :: "json \<Rightarrow> string \<Rightarrow> json" where
  "get_prop v k =
     (case v of
        JObj kvs \<Rightarrow> (case map_of kvs k of None \<Rightarrow> JUndefined | Some x \<Rightarrow> x)
      | _ \<Rightarrow> JUndefined)"

fun js_ToString :: "json \<Rightarrow> string option"
  and js_elems_ToString :: "json list \<Rightarrow> string list option"
where
  "js_ToString JUndefined = Some ''undefined''"
| "js_ToString JNull = Some ''null''"
| "js_ToString (JBool b) = Some (if b then ''true'' else ''false'')"
| "js_ToString (JNum n) = Some (show_int n)"
| "js_ToString (JStr s) = Some s"
| "js_ToString (JArr xs) =
     (case js_elems_ToString xs of None \<Rightarrow> None | Some ts \<Rightarrow> Some (join '','' ts))"
| "js_ToString (JObj kvs) =
     (if map_of kvs ''toString'' = None then Some ''[object Object]'' else None)"
| "js_elems_ToString [] = Some []"
| "js_elems_ToString (x # xs) =
     (case (if x = JUndefined \<or> x = JNull then Some [] else js_ToString x) of
        None \<Rightarrow> None
      | Some t \<Rightarrow> (case js_elems_ToString xs of None \<Rightarrow> None | Some ts \<Rightarrow> Some (t # ts)))"

definition now_gt :: "runtime \<Rightarrow> int \<Rightarrow> json \<Rightarrow> bool option" where
  "now_gt rt now x =
     (case x of
        JUndefined \<Rightarrow> Some False
      | JNull \<Rightarrow> Some (now > 0)
      | JBool b \<Rightarrow> Some (now > (if b then 1 else 0))
      | JNum n \<Rightarrow> Some (now > n)
      | JStr s \<Rightarrow> Some (gt_string rt now s)
      | _ \<Rightarrow> (case js_ToString x of None \<Rightarrow> None | Some s \<Rightarrow> Some (gt_string rt now s)))"

datatype read_outcome = Threw | Expired | Read json

definition restore_value :: "json \<Rightarrow> json \<Rightarrow> read_outcome" where
  "restore_value type v =
     (if type = JStr ''string'' then Read v
      else if type = JStr ''json'' then
        (case js_ToString v of
           None \<Rightarrow> Threw
         | Some s \<Rightarrow> (case JSON_parse s of Inl e \<Rightarrow> Threw | Inr x \<Rightarrow> Read x))
      else Read JUndefined)"

definition read_entry :: "runtime \<Rightarrow> int \<Rightarrow> string \<Rightarrow> read_outcome" where
  "read_entry rt now content =
     (case JSON_parse content of
        Inl e \<Rightarrow> Threw
      | Inr parsed \<Rightarrow>
          if parsed = JNull then Threw
          else
            (let type = get_prop parsed ''type'';
                 v = get_prop parsed ''value'';
                 expiresAt = get_prop parsed ''expiresAt''
             in if expiresAt = JNum 0 then restore_value type v
                else (case now_gt rt now expiresAt of
                        None \<Rightarrow> Threw
                      | Some True \<Rightarrow> Expired
                      | Some False \<Rightarrow> restore_value type v)))"

definition FileCache_get :: "runtime \<Rightarrow> string \<Rightarrow> int \<Rightarrow> files \<Rightarrow> string \<Rightarrow> json \<times> files" where
  "FileCache_get rt cacheDir now fs key =
     (let filePath = getFilePath cacheDir key
      in case fs filePath of
           None \<Rightarrow> (JUndefined, fs)
         | Some content \<Rightarrow>
             (case read_entry rt now content of
                Read v \<Rightarrow> (v, fs)
              | Expired \<Rightarrow> (JUndefined, fs(filePath := None))
              | Threw \<Rightarrow> (JUndefined, fs(filePath := None))))"

definition FileCache_delete :: "string \<Rightarrow> files \<Rightarrow> string \<Rightarrow> bool \<times> files" where
  "FileCache_delete cacheDir fs key =
     (let filePath = getFilePath cacheDir key
      in if fs filePath \<noteq> None then (True, fs(filePath := None)) else (False, fs))"


section \<open>The process state and its environment\<close>

datatype error = NetworkError | StatusError int | TimeoutError | CredentialError | TypeError

datatype 'a promise = Resolved 'a | Rejected error | Pending

record proxy =
  username :: string
  password :: string
  proxy_address :: string
  port :: int

record world =
  files :: files
  clock :: int
  proxies :: "proxy list"
  index :: nat
  pool_requests :: nat
  sent :: "(string \<times> string) list"
  fetch_log :: "string list"
  errors :: "string list"

record env =
  credential_service :: "nat \<Rightarrow> error + proxy list"
  http_get :: "string \<Rightarrow> nat \<Rightarrow> error + json"
  latency :: "nat \<Rightarrow> int"

definition sleep :: "int \<Rightarrow> world \<Rightarrow> world" where
  "sleep ms w = w\<lparr>clock := clock w + ms\<rparr>"

section \<open>The proxy rotation (\<open>libs/websearch-proxy.js\<close>)\<close>

definition getNextProxy :: "world \<Rightarrow> proxy option \<times> world" where
  "getNextProxy w =
     (let n = length (proxies w);
          p = (if n = 0 then None else Some (proxies w ! (index w mod n)))
      in (p, w\<lparr>index := index w + 1\<rparr>))"

definition getProxyList :: "env \<Rightarrow> world \<Rightarrow> error option \<times> world" where
  "getProxyList env w =
     (let w1 = w\<lparr>pool_requests := pool_requests w + 1\<rparr>
      in case credential_service env (pool_requests w) of
           Inl e \<Rightarrow> (Some e, w1)
         | Inr results \<Rightarrow> (None, w1\<lparr>proxies := results\<rparr>))"

definition proxyUrl :: "proxy \<Rightarrow> string" where
  "proxyUrl p =
     ''http://'' @ username p @ '':'' @ password p @ ''@'' @ proxy_address p @ '':'' @ show_int (port p)"

definition getProxyAgent :: "env \<Rightarrow> world \<Rightarrow> (error + string) \<times> world" where
  "getProxyAgent env w =
     (case (if length (proxies w) = 0 then getProxyList env w else (None, w)) of
        (Some e, w1) \<Rightarrow> (Inl e, w1)
      | (None, w1) \<Rightarrow>
          (case getNextProxy w1 of
             (None, w2) \<Rightarrow> (Inl TypeError, w2)
           | (Some proxyData, w2) \<Rightarrow> (Inr (proxyUrl proxyData), w2)))"

fun acquire :: "nat \<Rightarrow> world \<Rightarrow> proxy option list \<times> world" where
  "acquire 0 w = ([], w)"
| "acquire (Suc n) w =
     (case getNextProxy w of (p, w1) \<Rightarrow> (case acquire n w1 of (ps, w2) \<Rightarrow> (p # ps, w2)))"

section \<open>The fetch client (\<open>libs/proxy-fetch.js\<close>)\<close>

fun truthy :: "json \<Rightarrow> bool" where
  "truthy JUndefined = False"
| "truthy JNull = False"
| "truthy (JBool b) = b"
| "truthy (JNum n) = (n \<noteq> 0)"
| "truthy (JStr s) = (s \<noteq> [])"
| "truthy (JArr xs) = True"
| "truthy (JObj kvs) = True"

definition keyInput :: "string \<Rightarrow> (string \<times> string) list \<Rightarrow> json" where
  "keyInput url headers =
     JObj [(''url'', JStr url),
           (''cookie'', JStr (case map_of headers ''Cookie'' of None \<Rightarrow> [] | Some c \<Rightarrow> c))]"

definition hash_input :: "string \<Rightarrow> (string \<times> string) list \<Rightarrow> string" where
  "hash_input url headers =
     (case JSON_stringify (keyInput url headers) of None \<Rightarrow> [] | Some t \<Rightarrow> t)"

definition getRequestHash :: "runtime \<Rightarrow> string \<Rightarrow> (string \<times> string) list \<Rightarrow> string" where
  "getRequestHash rt url headers = sha256_hex rt (hash_input url headers)"

definition cacheDir :: string where
  "cacheDir = ''./.cache''"

definition axios_get :: "env \<Rightarrow> string \<Rightarrow> string \<Rightarrow> world \<Rightarrow> (error + json) \<times> world" where
  "axios_get env url agent w =
     (let n = length (sent w)
      in (http_get env url n, w\<lparr>sent := sent w @ [(url, agent)], clock := clock w + latency env n\<rparr>))"

definition fetch ::
  "runtime \<Rightarrow> env \<Rightarrow> string \<Rightarrow> (string \<times> string) list \<Rightarrow> int \<Rightarrow> world \<Rightarrow> json promise \<times> world" where
  "fetch rt env url customHeaders ttl w =
     (let w0 = w\<lparr>fetch_log := fetch_log w @ [url]\<rparr>;
          cacheKey = getRequestHash rt url customHeaders
      in case FileCache_get rt cacheDir (clock w0) (files w0) cacheKey of
           (cachedResult, fs) \<Rightarrow>
             if truthy cachedResult then (Resolved cachedResult, w0\<lparr>files := fs\<rparr>)
             else
               (case getProxyAgent env (w0\<lparr>files := fs\<rparr>) of
                  (Inl e, w1) \<Rightarrow> (Pending, w1)
                | (Inr agent, w1) \<Rightarrow>
                    (case axios_get env url agent w1 of
                       (Inl error, w2) \<Rightarrow> (Rejected error, w2)
                     | (Inr body, w2) \<Rightarrow>
                         (Resolved body,
                          w2\<lparr>files := FileCache_set cacheDir (clock w2) (files w2) cacheKey body ttl\<rparr>))))"


section \<open>The batch orchestrator (\<open>scrape-full-advisors.js\<close>)\<close>

record config =
  ttl :: int
  pageSize :: int
  maxRetries :: int
  batchSize :: int
  delayBetweenBatchesMs :: int

record process_env =
  CACHE_TTL :: "int option"
  PAGE_SIZE :: "int option"
  MAX_RETRIES :: "int option"
  BATCH_SIZE :: "int option"
  DELAY_BETWEEN_BATCHES_MS :: "int option"

definition or_default :: "int option \<Rightarrow> int \<Rightarrow> int" where
  "or_default parsed d = (case parsed of None \<Rightarrow> d | Some n \<Rightarrow> if n = 0 then d else n)"

definition load_config :: "process_env \<Rightarrow> config" where
  "load_config pe =
     \<lparr>ttl = or_default (CACHE_TTL pe) 604800,
      pageSize = or_default (PAGE_SIZE pe) 500,
      maxRetries = or_default (MAX_RETRIES pe) 3,
      batchSize = or_default (BATCH_SIZE pe) 5,
      delayBetweenBatchesMs = or_default (DELAY_BETWEEN_BATCHES_MS pe) 1000\<rparr>"

definition buildListUrl :: "config \<Rightarrow> int \<Rightarrow> string" where
  "buildListUrl cfg page =
     ''https://www.travelleaders.com/agent/getAgents?ZIP=&Name=&AgentInterest=&AgentDestination=''
     @ ''&AgentState=&AgentMetroRegion=&AgentLanguage=&AgentCity=&AgentSupplier=&AgentId=0''
     @ ''&AgencyId=0&Locality=AR&AgentSort=&CurrentPage='' @ show_int page
     @ ''&PageSize='' @ show_int (pageSize cfg)"

definition buildBioUrl :: "string \<Rightarrow> string" where
  "buildBioUrl idText =
     ''https://www.travelleaders.com/agent/getAgentFullBio?agentId='' @ idText
     @ ''&preview=false&destination=''"

datatype 'a attempt = Hangs | Fails | Succeeds 'a

definition nullish :: "json \<Rightarrow> bool" where
  "nullish v \<longleftrightarrow> v = JNull \<or> v = JUndefined"

definition page_attempt :: "runtime \<Rightarrow> env \<Rightarrow> config \<Rightarrow> int \<Rightarrow> world \<Rightarrow> json attempt \<times> world" where
  "page_attempt rt env cfg page w =
     (case fetch rt env (buildListUrl cfg page) [] (ttl cfg) w of
        (Pending, w1) \<Rightarrow> (Hangs, w1)
      | (Rejected e, w1) \<Rightarrow> (Fails, w1)
      | (Resolved res, w1) \<Rightarrow>
          if nullish res \<or> nullish (get_prop res ''data'') then (Fails, w1)
          else (Succeeds (get_prop (get_prop res ''data'') ''agent''), w1))"

function fetchPage :: "runtime \<Rightarrow> env \<Rightarrow> config \<Rightarrow> int \<Rightarrow> int \<Rightarrow> world \<Rightarrow> json promise \<times> world" where
  "fetchPage rt env cfg page attempt w =
     (case page_attempt rt env cfg page w of
        (Hangs, w1) \<Rightarrow> (Pending, w1)
      | (Succeeds agents, w1) \<Rightarrow> (Resolved agents, w1)
      | (Fails, w1) \<Rightarrow>
          if attempt < maxRetries cfg
          then fetchPage rt env cfg page (attempt + 1) (sleep 200 w1)
          else (Resolved (JArr []),
                w1\<lparr>errors := errors w1 @
                  [''Failed to fetch page '' @ show_int page @ '' after ''
                   @ show_int (maxRetries cfg) @ '' attempts.'']\<rparr>))"
  by pat_completeness auto
termination
  by (relation "measure (\<lambda>(rt, env, cfg, page, attempt, w). nat (maxRetries cfg - attempt))") auto

definition spread_props :: "json \<Rightarrow> (string \<times> json) list" where
  "spread_props d =
     (case d of
        JObj kvs \<Rightarrow> kvs
      | JArr xs \<Rightarrow> zip (map (\<lambda>i. show_int (int i)) [0..<length xs]) xs
      | JStr s \<Rightarrow> zip (map (\<lambda>i. show_int (int i)) [0..<length s]) (map (\<lambda>c. JStr [c]) s)
      | _ \<Rightarrow> [])"

definition build_record :: "json \<Rightarrow> json \<Rightarrow> json" where
  "build_record agentId d =
     JObj (foldl (\<lambda>acc kv. AList.update (fst kv) (snd kv) acc) [(''id'', agentId)] (spread_props d))"

definition bio_attempt :: "runtime \<Rightarrow> env \<Rightarrow> config \<Rightarrow> json \<Rightarrow> world \<Rightarrow> json attempt \<times> world" where
  "bio_attempt rt env cfg agentId w =
     (case js_ToString agentId of
        None \<Rightarrow> (Fails, w)
      | Some idText \<Rightarrow>
          (case fetch rt env (buildBioUrl idText) [] (ttl cfg) w of
             (Pending, w1) \<Rightarrow> (Hangs, w1)
           | (Rejected e, w1) \<Rightarrow> (Fails, w1)
           | (Resolved res, w1) \<Rightarrow>
               if nullish res then (Fails, w1)
               else (Succeeds (build_record agentId (get_prop res ''data'')), w1)))"

function fetchAgentBio :: "runtime \<Rightarrow> env \<Rightarrow> config \<Rightarrow> json \<Rightarrow> int \<Rightarrow> world \<Rightarrow> json promise \<times> world" where
  "fetchAgentBio rt env cfg agentId attempt w =
     (case bio_attempt rt env cfg agentId w of
        (Hangs, w1) \<Rightarrow> (Pending, w1)
      | (Succeeds record, w1) \<Rightarrow> (Resolved record, w1)
      | (Fails, w1) \<Rightarrow>
          if attempt < maxRetries cfg
          then fetchAgentBio rt env cfg agentId (attempt + 1) (sleep 200 w1)
          else (case js_ToString agentId of
                  None \<Rightarrow> (Rejected TypeError, w1)
                | Some idText \<Rightarrow>
                    (Resolved JNull,
                     w1\<lparr>errors := errors w1 @
                       [''Failed agent '' @ idText @ '' after ''
                        @ show_int (maxRetries cfg) @ '' attempts'']\<rparr>)))"
  by pat_completeness auto
termination
  by (relation "measure (\<lambda>(rt, env, cfg, agentId, attempt, w). nat (maxRetries cfg - attempt))") auto

fun fetchPages :: "runtime \<Rightarrow> env \<Rightarrow> config \<Rightarrow> int list \<Rightarrow> world \<Rightarrow> json promise list \<times> world" where
  "fetchPages rt env cfg [] w = ([], w)"
| "fetchPages rt env cfg (page # rest) w =
     (case fetchPage rt env cfg page 1 w of
        (r, w1) \<Rightarrow> (case fetchPages rt env cfg rest w1 of (rs, w2) \<Rightarrow> (r # rs, w2)))"

definition agent_ids :: "json \<Rightarrow> error + json list" where
  "agent_ids agents =
     (case agents of
        JArr xs \<Rightarrow> if list_ex nullish xs then Inl TypeError
                   else Inr (map (\<lambda>a. get_prop a ''agentId'') xs)
      | _ \<Rightarrow> Inl TypeError)"

fun collect_ids :: "json promise list \<Rightarrow> error + json list" where
  "collect_ids [] = Inr []"
| "collect_ids (Resolved v # rs) =
     (case agent_ids v of
        Inl e \<Rightarrow> Inl e
      | Inr ids \<Rightarrow> (case collect_ids rs of Inl e \<Rightarrow> Inl e | Inr ids' \<Rightarrow> Inr (ids @ ids')))"
| "collect_ids (r # rs) = collect_ids rs"

definition batch_pages :: "int \<Rightarrow> int \<Rightarrow> int \<Rightarrow> int list" where
  "batch_pages i pages bsize = map (\<lambda>j. i + int j) [0..<nat (min bsize (pages - i))]"

definition is_space :: "char \<Rightarrow> bool" where
  "is_space c \<longleftrightarrow> (9 \<le> (of_char c :: nat) \<and> (of_char c :: nat) \<le> 13) \<or> c = CHR '' ''"

definition hex_digits_val :: "string \<Rightarrow> int" where
  "hex_digits_val ds = foldl (\<lambda>a c. 16 * a + int (case hex_val c of None \<Rightarrow> 0 | Some d \<Rightarrow> d)) 0 ds"

definition parseInt_string :: "string \<Rightarrow> int option" where
  "parseInt_string s =
     (let s1 = dropWhile is_space s;
          neg = (case s1 of c # _ \<Rightarrow> c = CHR ''-'' | [] \<Rightarrow> False);
          s2 = (case s1 of c # r \<Rightarrow> if c = CHR ''-'' \<or> c = CHR ''+'' then r else s1 | [] \<Rightarrow> s1);
          hex = (case s2 of a # b # _ \<Rightarrow> a = CHR ''0'' \<and> (b = CHR ''x'' \<or> b = CHR ''X'') | _ \<Rightarrow> False);
          ds = (if hex then takeWhile (\<lambda>c. hex_val c \<noteq> None) (drop 2 s2) else takeWhile is_digit s2);
          n = (if hex then hex_digits_val ds else digits_val ds)
      in if ds = [] then None else Some (if neg then - n else n))"

definition parseInt :: "json \<Rightarrow> error + int option" where
  "parseInt v =
     (case v of
        JNum n \<Rightarrow> Inr (Some n)
      | _ \<Rightarrow> (case js_ToString v of None \<Rightarrow> Inl TypeError | Some s \<Rightarrow> Inr (parseInt_string s)))"

definition ceil_div :: "int \<Rightarrow> int \<Rightarrow> int" where
  "ceil_div a b = - ((- a) div b)"

definition page_count :: "int option \<Rightarrow> int \<Rightarrow> int option" where
  "page_count totalAgents psize = (case totalAgents of None \<Rightarrow> None | Some t \<Rightarrow> Some (ceil_div t psize))"

partial_function (option) phase1_loop ::
  "runtime \<Rightarrow> env \<Rightarrow> config \<Rightarrow> int option \<Rightarrow> int \<Rightarrow> json list \<Rightarrow> world
     \<Rightarrow> (error + json list \<times> world) option" where
  "phase1_loop rt env cfg pages i allAgentIds w =
     (case pages of
        None \<Rightarrow> Some (Inr (allAgentIds, w))
      | Some n \<Rightarrow>
          if i < n then
            (case fetchPages rt env cfg (batch_pages i n (batchSize cfg)) w of
               (results, w1) \<Rightarrow>
                 if Pending \<in> set results then None
                 else (case collect_ids results of
                         Inl e \<Rightarrow> Some (Inl e)
                       | Inr ids \<Rightarrow>
                           phase1_loop rt env cfg pages (i + batchSize cfg) (allAgentIds @ ids)
                             (sleep (delayBetweenBatchesMs cfg) w1)))
          else Some (Inr (allAgentIds, w)))"

definition first_page :: "json \<Rightarrow> error + int option \<times> json list" where
  "first_page firstPageResult =
     (if nullish firstPageResult \<or> nullish (get_prop firstPageResult ''data'') then Inl TypeError
      else case parseInt (get_prop (get_prop firstPageResult ''data'') ''totalAgents'') of
             Inl e \<Rightarrow> Inl e
           | Inr totalAgents \<Rightarrow>
               (case agent_ids (get_prop (get_prop firstPageResult ''data'') ''agent'') of
                  Inl e \<Rightarrow> Inl e
                | Inr ids \<Rightarrow> Inr (totalAgents, ids)))"

definition phase1 :: "runtime \<Rightarrow> env \<Rightarrow> config \<Rightarrow> world \<Rightarrow> (error + json list \<times> world) option" where
  "phase1 rt env cfg w =
     (case fetch rt env (buildListUrl cfg 0) [] (ttl cfg) w of
        (Pending, w1) \<Rightarrow> None
      | (Rejected e, w1) \<Rightarrow> Some (Inl e)
      | (Resolved firstPageResult, w1) \<Rightarrow>
          (case first_page firstPageResult of
             Inl e \<Rightarrow> Some (Inl e)
           | Inr (totalAgents, ids) \<Rightarrow>
               phase1_loop rt env cfg (page_count totalAgents (pageSize cfg)) 1 ids w1))"


section \<open>Notions used in the statements\<close>





definition cookie_of :: "(string \<times> string) list \<Rightarrow> string" where
  "cookie_of headers = (case map_of headers ''Cookie'' of None \<Rightarrow> [] | Some c \<Rightarrow> c)"

section \<open>Sample data\<close>

definition stub_runtime :: runtime where
  "stub_runtime = \<lparr>sha256_hex = (\<lambda>s. s), gt_string = (\<lambda>n s. False)\<rparr>"

definition sample_page :: json where
  "sample_page =
     JObj [(''data'', JObj [(''totalAgents'', JNum 2),
                            (''agent'', JArr [JObj [(''agentId'', JNum 3102), (''name'', JStr ''M. B.'')],
                                              JObj [(''agentId'', JNum 4567), (''name'', JNull)]])])]"

definition one_proxy :: proxy where
  "one_proxy = \<lparr>username = ''user'', password = ''secret'', proxy_address = ''10.0.0.1'', port = 8080\<rparr>"

definition three_proxies :: "proxy list" where
  "three_proxies =
     [one_proxy, one_proxy\<lparr>proxy_address := ''10.0.0.2''\<rparr>, one_proxy\<lparr>proxy_address := ''10.0.0.3''\<rparr>]"

definition start_world :: world where
  "start_world =
     \<lparr>files = Map.empty, clock = 1700000000000, proxies = [], index = 0, pool_requests = 0,
      sent = [], fetch_log = [], errors = []\<rparr>"

definition empty_body_env :: env where
  "empty_body_env =
     \<lparr>credential_service = (\<lambda>n. Inr [one_proxy]),
      http_get = (\<lambda>url n. Inr (JStr [])),
      latency = (\<lambda>n. 150)\<rparr>"

definition no_credentials_env :: env where
  "no_credentials_env =
     \<lparr>credential_service = (\<lambda>n. Inl CredentialError),
      http_get = (\<lambda>url n. Inr sample_page),
      latency = (\<lambda>n. 150)\<rparr>"





definition no_cache_config :: config where
  "no_cache_config =
     load_config \<lparr>CACHE_TTL = Some (- 1), PAGE_SIZE = None, MAX_RETRIES = None, BATCH_SIZE = None,
                  DELAY_BETWEEN_BATCHES_MS = None\<rparr>"


definition bio_env :: env where
  "bio_env =
     \<lparr>credential_service = (\<lambda>n. Inr [one_proxy]),
      http_get = (\<lambda>url n. Inr (JObj [(''data'', JObj [(''id'', JNum 7), (''firstName'', JStr ''Ann'')])])),
      latency = (\<lambda>n. 150)\<rparr>"

section \<open>\<open>JSON.parse\<close> inverts \<open>JSON.stringify\<close>\<close>

subsection \<open>Decimal digits\<close>

lemma of_char_digit_char: "d < 10 \<Longrightarrow> (of_char (digit_char d) :: nat) = 48 + d"
  by (simp add: digit_char_def)

lemma is_digit_digit_char: "d < 10 \<Longrightarrow> is_digit (digit_char d)"
  by (simp add: is_digit_def of_char_digit_char)

lemma digit_val_digit_char: "d < 10 \<Longrightarrow> digit_val (digit_char d) = int d"
  by (simp add: digit_val_def of_char_digit_char)

lemma digits_val_snoc: "digits_val (ds @ [c]) = 10 * digits_val ds + digit_val c"
  by (simp add: digits_val_def)

lemma show_digits_props:
  "0 \<le> n \<Longrightarrow>
     show_digits n \<noteq> [] \<and> list_all is_digit (show_digits n) \<and> digits_val (show_digits n) = n
     \<and> (hd (show_digits n) = CHR ''0'' \<longrightarrow> n = 0)
     \<and> (n < 10 \<longrightarrow> length (show_digits n) = 1)"
proof (induction n rule: show_digits.induct)
  case (1 n)
  show ?case
  proof (cases "n < 10")
    case True
    with "1.prems" have "nat n < 10" by simp
    moreover have "hd (show_digits n) = CHR ''0'' \<longrightarrow> n = 0"
    proof
      assume "hd (show_digits n) = CHR ''0''"
      with True have "digit_char (nat n) = CHR ''0''" by (simp add: show_digits.simps)
      then have "(of_char (digit_char (nat n)) :: nat) = 48" by simp
      with \<open>nat n < 10\<close> have "nat n = 0" by (simp add: of_char_digit_char)
      with "1.prems" show "n = 0" by simp
    qed
    ultimately show ?thesis
      using True "1.prems"
      by (simp add: show_digits.simps is_digit_digit_char digits_val_def digit_val_digit_char)
  next
    case False
    then have d: "0 \<le> n div 10" "n div 10 \<noteq> 0" by simp_all
    have m: "nat (n mod 10) < 10" by simp
    from "1.IH" [OF False d(1)] d(2)
    have ih: "show_digits (n div 10) \<noteq> []" "list_all is_digit (show_digits (n div 10))"
      "digits_val (show_digits (n div 10)) = n div 10"
      "hd (show_digits (n div 10)) \<noteq> CHR ''0''"
      by auto
    have eq: "show_digits n = show_digits (n div 10) @ [digit_char (nat (n mod 10))]"
      using False by (subst show_digits.simps) simp
    show ?thesis
      using ih m False
      by (simp add: eq digits_val_snoc digit_val_digit_char is_digit_digit_char)
  qed
qed

lemma takeWhile_digits:
  "list_all is_digit ds \<Longrightarrow> follow_ok r \<Longrightarrow> takeWhile is_digit (ds @ r) = ds"
  by (induction ds) (auto simp: follow_ok_def split: list.splits)

lemma dropWhile_digits:
  "list_all is_digit ds \<Longrightarrow> follow_ok r \<Longrightarrow> dropWhile is_digit (ds @ r) = r"
  by (induction ds) (auto simp: follow_ok_def split: list.splits)

lemma not_digit_minus: "\<not> is_digit (CHR ''-'')"
  by (simp add: is_digit_def)

lemma parse_number_show_int:
  assumes "follow_ok r"
  shows "parse_number (show_int n @ r) = Inr (JNum n, r)"
proof -
  define m where "m = (if n < 0 then - n else n)"
  have m0: "0 \<le> m" by (simp add: m_def)
  define ds where "ds = show_digits m"
  from show_digits_props [OF m0]
  have ds: "ds \<noteq> []" "list_all is_digit ds" "digits_val ds = m"
    "hd ds = CHR ''0'' \<longrightarrow> m = 0" "m < 10 \<longrightarrow> length ds = 1"
    by (simp_all add: ds_def)
  have hd_digit: "is_digit (hd ds)" using ds(1,2) by (cases ds) simp_all
  have lead: "\<not> (hd ds = CHR ''0'' \<and> length ds > 1)" using ds(4,5) by auto
  have fo: "\<not> (case r of c # _ \<Rightarrow> c = CHR ''.'' \<or> c = CHR ''e'' \<or> c = CHR ''E'' | [] \<Rightarrow> False)"
    using assms by (auto simp: follow_ok_def split: list.splits)
  show ?thesis
  proof (cases "n < 0")
    case True
    then have s: "show_int n @ r = CHR ''-'' # (ds @ r)"
      by (simp add: show_int_def ds_def m_def)
    show ?thesis
      unfolding s parse_number_def
      using ds lead fo True assms
      by (simp add: takeWhile_digits dropWhile_digits m_def Let_def)
  next
    case False
    then have s: "show_int n @ r = ds @ r"
      by (simp add: show_int_def ds_def m_def)
    have nm: "(case ds @ r of c # _ \<Rightarrow> c = CHR ''-'' | [] \<Rightarrow> False) = False"
      using ds(1) hd_digit not_digit_minus by (cases ds) auto
    show ?thesis
      unfolding s parse_number_def
      using ds lead fo False assms nm
      by (simp add: takeWhile_digits dropWhile_digits m_def Let_def)
  qed
qed


subsection \<open>String literals\<close>

lemma hex_val_hex_char: "d < 16 \<Longrightarrow> hex_val (hex_char d) = Some d"
  by (auto simp: hex_val_def hex_char_def Let_def)

lemma hex_val_zero: "hex_val (CHR ''0'') = Some 0"
  by (simp add: hex_val_def)

lemma unicode_escape_control:
  assumes "(of_char c :: nat) < 32"
  shows "unicode_escape (CHR ''0'') (CHR ''0'') (hex_char (of_char c div 16)) (hex_char (of_char c mod 16))
           = Inr c"
proof -
  let ?n = "of_char c :: nat"
  have "?n div 16 < 16" "?n mod 16 < 16" using assms by simp_all
  then have h: "hex_val (hex_char (?n div 16)) = Some (?n div 16)"
    "hex_val (hex_char (?n mod 16)) = Some (?n mod 16)"
    by (simp_all add: hex_val_hex_char)
  have "?n div 16 * 16 + ?n mod 16 = ?n" by simp
  then show ?thesis
    using assms by (simp add: unicode_escape_def h hex_val_zero)
qed

lemma parse_chars_quote_char:
  "parse_chars (quote_char c @ s) = cons_char c (parse_chars s)"
proof -
  consider "c = CHR 0x22" | "c = CHR 0x5C" | "c = CHR 0x08" | "c = CHR 0x0C" | "c = CHR 0x0A"
    | "c = CHR 0x0D" | "c = CHR 0x09"
    | "c \<notin> {CHR 0x22, CHR 0x5C, CHR 0x08, CHR 0x0C, CHR 0x0A, CHR 0x0D, CHR 0x09}" "(of_char c :: nat) < 32"
    | "c \<notin> {CHR 0x22, CHR 0x5C, CHR 0x08, CHR 0x0C, CHR 0x0A, CHR 0x0D, CHR 0x09}" "\<not> (of_char c :: nat) < 32"
    by blast
  then show ?thesis
  proof cases
    case 8
    then show ?thesis
      by (simp add: quote_char_def unicode_escape_control)
  next
    case 9
    then show ?thesis by (simp add: quote_char_def)
  qed (simp_all add: quote_char_def simple_escape_def)
qed

lemma parse_chars_quoted:
  "parse_chars (concat (map quote_char s) @ CHR 0x22 # r) = Inr (s, r)"
  by (induction s) (simp_all add: parse_chars_quote_char cons_char_def)

lemma quote_eq: "quote s @ r = CHR 0x22 # (concat (map quote_char s) @ CHR 0x22 # r)"
  by (simp add: quote_def)

subsection \<open>Objects with distinct keys\<close>

lemma update_fresh: "k \<notin> fst ` set al \<Longrightarrow> AList.update k v al = al @ [(k, v)]"
  by (induction al) auto

lemma foldl_update_distinct:
  "distinct (map fst kvs) \<Longrightarrow> fst ` set acc \<inter> fst ` set kvs = {} \<Longrightarrow>
     foldl (\<lambda>acc kv. AList.update (fst kv) (snd kv) acc) acc kvs = acc @ kvs"
proof (induction kvs arbitrary: acc)
  case Nil
  then show ?case by simp
next
  case (Cons kv kvs)
  from Cons.prems have fresh: "fst kv \<notin> fst ` set acc" by auto
  have "fst ` set (acc @ [kv]) \<inter> fst ` set kvs = {}"
    using Cons.prems by auto
  with Cons.IH [of "acc @ [kv]"] Cons.prems fresh show ?case
    by (simp add: update_fresh)
qed

lemma obj_of_members_distinct: "distinct (map fst kvs) \<Longrightarrow> obj_of_members kvs = kvs"
  using foldl_update_distinct [of kvs "[]"] by (simp add: obj_of_members_def)


subsection \<open>Parsing what \<open>JSON_stringify\<close> printed\<close>

lemma is_digit_other:
  "is_digit c \<Longrightarrow> \<not> is_ws c \<and> c \<noteq> CHR '']'' \<and> c \<noteq> CHR ''}'' \<and> c \<noteq> CHR ''{''
     \<and> c \<noteq> CHR ''['' \<and> c \<noteq> CHR 0x22"
  by (auto simp: is_digit_def is_ws_def)

lemma skip_ws_Cons: "\<not> is_ws c \<Longrightarrow> skip_ws (c # s) = c # s"
  by (simp add: skip_ws_def)

lemma show_int_first:
  "\<exists>c t. show_int n = c # t \<and> (c = CHR ''-'' \<or> is_digit c)"
proof (cases "n < 0")
  case True
  then show ?thesis by (simp add: show_int_def)
next
  case False
  then have "0 \<le> n" by simp
  from show_digits_props [OF this]
  have "show_digits n \<noteq> []" "list_all is_digit (show_digits n)" by simp_all
  then show ?thesis using False by (cases "show_digits n") (simp_all add: show_int_def)
qed

lemma stringify_first:
  assumes "JSON_stringify v = Some t"
  shows "\<exists>c t'. t = c # t' \<and> \<not> is_ws c \<and> c \<noteq> CHR '']'' \<and> c \<noteq> CHR ''}''"
proof (cases v)
  case JUndefined
  with assms show ?thesis by simp
next
  case JNull
  with assms have "t = ''null''" by simp
  then show ?thesis by (simp add: is_ws_def)
next
  case (JBool b)
  with assms have "t = ''true'' \<or> t = ''false''" by (cases b) auto
  then show ?thesis by (auto simp: is_ws_def)
next
  case (JNum n)
  from show_int_first [of n] obtain c t' where c: "show_int n = c # t'" "c = CHR ''-'' \<or> is_digit c"
    by blast
  from assms JNum have "t = show_int n" by simp
  with c(1) have t: "t = c # t'" by simp
  from c(2) have "\<not> is_ws c \<and> c \<noteq> CHR '']'' \<and> c \<noteq> CHR ''}''"
  proof
    assume "c = CHR ''-''"
    then show ?thesis by (simp add: is_ws_def)
  next
    assume "is_digit c"
    then show ?thesis using is_digit_other [of c] by simp
  qed
  with t show ?thesis by blast
next
  case (JStr s)
  with assms have "t = CHR 0x22 # (concat (map quote_char s) @ [CHR 0x22])" by (simp add: quote_def)
  then show ?thesis by (simp add: is_ws_def)
next
  case (JArr xs)
  with assms have "t = CHR ''['' # (join '','' (stringify_elems xs) @ '']'')" by simp
  then show ?thesis by (simp add: is_ws_def)
next
  case (JObj kvs)
  with assms have "t = CHR ''{'' # (join '','' (stringify_members kvs) @ ''}'')" by simp
  then show ?thesis by (simp add: is_ws_def)
qed

lemma join_Cons: "join sep (t # ts) = (if ts = [] then t else t @ sep @ join sep ts)"
  by (cases ts) simp_all

lemma stringify_elems_Nil_iff: "stringify_elems xs = [] \<longleftrightarrow> xs = []"
  by (cases xs) simp_all

lemma serializable_stringify: "serializable v \<Longrightarrow> \<exists>t. JSON_stringify v = Some t"
  by (cases v) simp_all

lemma stringify_members_Nil_iff:
  "serializable_members kvs \<Longrightarrow> stringify_members kvs = [] \<longleftrightarrow> kvs = []"
proof (cases kvs)
  case Nil
  then show ?thesis by simp
next
  case (Cons kv kvs')
  assume "serializable_members kvs"
  with Cons obtain t where "JSON_stringify (snd kv) = Some t"
    using serializable_stringify [of "snd kv"] by (cases kv) auto
  with Cons show ?thesis by (cases kv) simp
qed

lemma join_first:
  assumes "ts \<noteq> []" "hd ts = c # t'"
  shows "\<exists>u. join sep ts @ r = c # u"
  using assms by (cases ts) (auto simp: join_Cons)

declare parse_value.simps [simp del] parse_elems.simps [simp del] parse_members.simps [simp del]

lemma parse_value_literal:
  "parse_value (''null'' @ r) = Inr (JNull, r)"
  "parse_value (''true'' @ r) = Inr (JBool True, r)"
  "parse_value (''false'' @ r) = Inr (JBool False, r)"
  by (simp_all add: parse_value.simps skip_ws_def is_ws_def is_digit_def parse_literal_def)

lemma parse_value_number:
  assumes "follow_ok r"
  shows "parse_value (show_int n @ r) = Inr (JNum n, r)"
proof -
  from show_int_first [of n] obtain c t where ct: "show_int n = c # t" "c = CHR ''-'' \<or> is_digit c"
    by blast
  from ct(2) have nw: "\<not> is_ws c \<and> c \<noteq> CHR ''{'' \<and> c \<noteq> CHR ''['' \<and> c \<noteq> CHR 0x22"
  proof
    assume "c = CHR ''-''"
    then show ?thesis by (simp add: is_ws_def)
  next
    assume "is_digit c"
    then show ?thesis using is_digit_other [of c] by simp
  qed
  have "parse_value (c # t @ r) = parse_number (c # t @ r)"
    using ct(2) nw by (simp add: parse_value.simps [of "c # t @ r"] skip_ws_Cons)
  then have "parse_value (show_int n @ r) = parse_number (show_int n @ r)"
    by (simp add: ct(1))
  then show ?thesis by (simp add: parse_number_show_int assms)
qed

lemma parse_value_string: "parse_value (quote s @ r) = Inr (JStr s, r)"
  by (simp add: quote_eq parse_value.simps skip_ws_def is_ws_def parse_chars_quoted)

lemma parse_value_bracket:
  assumes "\<not> is_ws c" "c \<noteq> CHR '']''"
  shows "parse_value (CHR ''['' # c # u) =
           (case parse_elems (c # u) of Inl e \<Rightarrow> Inl e | Inr (vs, r') \<Rightarrow> Inr (JArr vs, r'))"
  using assms by (simp add: parse_value.simps [of "CHR ''['' # c # u"] skip_ws_def is_ws_def)

lemma parse_value_brace:
  assumes "\<not> is_ws c" "c \<noteq> CHR ''}''"
  shows "parse_value (CHR ''{'' # c # u) =
           (case parse_members (c # u) of Inl e \<Rightarrow> Inl e
            | Inr (kvs, r') \<Rightarrow> Inr (JObj (obj_of_members kvs), r'))"
  using assms by (simp add: parse_value.simps [of "CHR ''{'' # c # u"] skip_ws_def is_ws_def)

lemma parse_value_array:
  assumes "xs \<noteq> [] \<Longrightarrow> parse_elems (join '','' (stringify_elems xs) @ CHR '']'' # r) = Inr (xs, r)"
  shows "parse_value (''['' @ join '','' (stringify_elems xs) @ '']'' @ r) = Inr (JArr xs, r)"
proof (cases xs)
  case Nil
  then show ?thesis
    by (simp add: parse_value.simps skip_ws_def is_ws_def)
next
  case (Cons x xs')
  define rest where "rest = join '','' (stringify_elems xs) @ CHR '']'' # r"
  obtain t where t: "hd (stringify_elems xs) = t"
    "\<exists>c t'. t = c # t' \<and> \<not> is_ws c \<and> c \<noteq> CHR '']'' \<and> c \<noteq> CHR ''}''"
  proof (cases "JSON_stringify x")
    case None
    then show ?thesis using Cons that [of "''null''"] by (simp add: is_ws_def)
  next
    case (Some u)
    then show ?thesis using Cons that [of u] stringify_first [of x u] by simp
  qed
  then obtain c t' where c: "t = c # t'" "\<not> is_ws c" "c \<noteq> CHR '']''" by blast
  have ne: "stringify_elems xs \<noteq> []" using Cons by simp
  from join_first [OF ne, of c t' "'',''" "CHR '']'' # r"] t(1) c(1)
  obtain u where u: "rest = c # u" by (auto simp: rest_def)
  have pe: "parse_elems rest = Inr (xs, r)" using assms Cons by (simp add: rest_def)
  have "parse_value (CHR ''['' # rest) = Inr (JArr xs, r)"
    unfolding u using parse_value_bracket [OF c(2,3), of u] pe [unfolded u] by simp
  then show ?thesis by (simp add: rest_def)
qed

lemma parse_value_object:
  assumes "serializable_members kvs" "distinct (map fst kvs)"
    and "kvs \<noteq> [] \<Longrightarrow> parse_members (join '','' (stringify_members kvs) @ CHR ''}'' # r) = Inr (kvs, r)"
  shows "parse_value (''{'' @ join '','' (stringify_members kvs) @ ''}'' @ r) = Inr (JObj kvs, r)"
proof (cases kvs)
  case Nil
  then show ?thesis
    by (simp add: parse_value.simps skip_ws_def is_ws_def)
next
  case (Cons kv kvs')
  define rest where "rest = join '','' (stringify_members kvs) @ CHR ''}'' # r"
  obtain k v where kv: "kv = (k, v)" by (cases kv)
  with assms(1) Cons obtain t where t: "JSON_stringify v = Some t"
    using serializable_stringify [of v] by auto
  have ne: "stringify_members kvs \<noteq> []" using Cons kv t by simp
  have "hd (stringify_members kvs) = CHR 0x22 # (concat (map quote_char k) @ CHR 0x22 # '':'' @ t)"
    using Cons kv t by (simp add: quote_def)
  from join_first [OF ne this, of "'',''" "CHR ''}'' # r"]
  obtain u where u: "rest = CHR 0x22 # u" by (auto simp: rest_def)
  have pm: "parse_members rest = Inr (kvs, r)" using assms(3) Cons by (simp add: rest_def)
  have "parse_value (CHR ''{'' # rest) = Inr (JObj kvs, r)"
    unfolding u using parse_value_brace [of "CHR 0x22" u] pm [unfolded u] assms(2)
    by (simp add: is_ws_def obj_of_members_distinct)
  then show ?thesis by (simp add: rest_def)
qed


lemma parse_elems_last:
  "parse_value s = Inr (x, CHR '']'' # r) \<Longrightarrow> parse_elems s = Inr ([x], r)"
  by (simp add: parse_elems.simps [of s] skip_ws_def is_ws_def)

lemma parse_elems_more:
  assumes "parse_value s = Inr (x, CHR '','' # rest)" "length rest < length s"
    and "parse_elems rest = Inr (xs, r)"
  shows "parse_elems s = Inr (x # xs, r)"
  using assms by (simp add: parse_elems.simps [of s] skip_ws_def is_ws_def)

lemma parse_members_key:
  "parse_members (quote k @ CHR '':'' # s2) =
     (case parse_value s2 of
        Inl e \<Rightarrow> Inl e
      | Inr (v, r3) \<Rightarrow>
          (case skip_ws r3 of
             [] \<Rightarrow> Inl SyntaxError
           | c # r4 \<Rightarrow>
               (if c = CHR ''}'' then Inr ([(k, v)], r4)
                else if c = CHR '','' \<and> length r4 < length (quote k @ CHR '':'' # s2) then
                  (case parse_members r4 of
                     Inl e \<Rightarrow> Inl e
                   | Inr (kvs, r5) \<Rightarrow> Inr ((k, v) # kvs, r5))
                else Inl SyntaxError)))"
proof -
  have q: "quote k @ CHR '':'' # s2 = CHR 0x22 # (concat (map quote_char k) @ CHR 0x22 # CHR '':'' # s2)"
    by (simp add: quote_def)
  show ?thesis
    by (subst parse_members.simps, subst (1 2) q)
      (simp add: skip_ws_def is_ws_def parse_chars_quoted quote_def)
qed

lemma parse_members_last:
  "parse_value s2 = Inr (v, CHR ''}'' # r) \<Longrightarrow>
     parse_members (quote k @ CHR '':'' # s2) = Inr ([(k, v)], r)"
  by (simp add: parse_members_key skip_ws_def is_ws_def)

lemma parse_members_more:
  assumes "parse_value s2 = Inr (v, CHR '','' # rest)" "length rest < length s2"
    and "parse_members rest = Inr (kvs, r)"
  shows "parse_members (quote k @ CHR '':'' # s2) = Inr ((k, v) # kvs, r)"
  using assms by (simp add: parse_members_key skip_ws_def is_ws_def)

lemma follow_ok_sep: "follow_ok (CHR '']'' # r)" "follow_ok (CHR ''}'' # r)" "follow_ok (CHR '','' # r)"
  by (simp_all add: follow_ok_def is_digit_def)

lemma parse_stringify_mutual:
  "serializable v \<longrightarrow>
     (\<forall>t r. JSON_stringify v = Some t \<longrightarrow> follow_ok r \<longrightarrow> parse_value (t @ r) = Inr (v, r))"
  "serializable_elems xs \<longrightarrow> xs \<noteq> [] \<longrightarrow>
     (\<forall>r. parse_elems (join '','' (stringify_elems xs) @ CHR '']'' # r) = Inr (xs, r))"
  "serializable_members kvs \<longrightarrow> kvs \<noteq> [] \<longrightarrow>
     (\<forall>r. parse_members (join '','' (stringify_members kvs) @ CHR ''}'' # r) = Inr (kvs, r))"
proof (induction v and xs and kvs rule: serializable_serializable_elems_serializable_members.induct)
  case 1
  show ?case by simp
next
  case 2
  show ?case using parse_value_literal(1) by simp
next
  case (3 b)
  show ?case using parse_value_literal(2,3) by (cases b) simp_all
next
  case (4 n)
  show ?case by (simp add: parse_value_number)
next
  case (5 s)
  show ?case by (simp add: parse_value_string)
next
  case (6 xs)
  show ?case
  proof (intro impI allI)
    fix t r
    assume ser: "serializable (JArr xs)" and t: "JSON_stringify (JArr xs) = Some t"
    from ser "6.IH" have "xs \<noteq> [] \<Longrightarrow>
        parse_elems (join '','' (stringify_elems xs) @ CHR '']'' # r) = Inr (xs, r)"
      by simp
    from parse_value_array [OF this] t show "parse_value (t @ r) = Inr (JArr xs, r)"
      by auto
  qed
next
  case (7 kvs)
  show ?case
  proof (intro impI allI)
    fix t r
    assume ser: "serializable (JObj kvs)" and t: "JSON_stringify (JObj kvs) = Some t"
    from ser have d: "distinct (map fst kvs)" and sm: "serializable_members kvs" by simp_all
    from "7.IH" sm have "kvs \<noteq> [] \<Longrightarrow>
        parse_members (join '','' (stringify_members kvs) @ CHR ''}'' # r) = Inr (kvs, r)"
      by simp
    from parse_value_object [OF sm d this] t show "parse_value (t @ r) = Inr (JObj kvs, r)"
      by auto
  qed
next
  case 8
  show ?case by simp
next
  case (9 x xs)
  show ?case
  proof (intro impI allI)
    fix r
    assume ser: "serializable_elems (x # xs)"
    then have sx: "serializable x" and sxs: "serializable_elems xs" by simp_all
    from serializable_stringify [OF sx] obtain t where t: "JSON_stringify x = Some t" by blast
    have px: "\<And>r'. follow_ok r' \<Longrightarrow> parse_value (t @ r') = Inr (x, r')"
      using "9.IH"(1) sx t by blast
    show "parse_elems (join '','' (stringify_elems (x # xs)) @ CHR '']'' # r) = Inr (x # xs, r)"
    proof (cases "xs = []")
      case True
      have "parse_elems (t @ CHR '']'' # r) = Inr ([x], r)"
        by (rule parse_elems_last) (simp add: px follow_ok_sep)
      with True t show ?thesis by simp
    next
      case False
      define rest where "rest = join '','' (stringify_elems xs) @ CHR '']'' # r"
      have pr: "parse_elems rest = Inr (xs, r)"
        using "9.IH"(2) sxs False by (simp add: rest_def)
      have "parse_elems (t @ CHR '','' # rest) = Inr (x # xs, r)"
        by (rule parse_elems_more [OF _ _ pr]) (simp_all add: px follow_ok_sep)
      with False t show ?thesis
        by (simp add: join_Cons stringify_elems_Nil_iff rest_def)
    qed
  qed
next
  case 10
  show ?case by simp
next
  case (11 k v kvs)
  show ?case
  proof (intro impI allI)
    fix r
    assume ser: "serializable_members ((k, v) # kvs)"
    then have sv: "serializable v" and skvs: "serializable_members kvs" by simp_all
    from serializable_stringify [OF sv] obtain t where t: "JSON_stringify v = Some t" by blast
    have pv: "\<And>r'. follow_ok r' \<Longrightarrow> parse_value (t @ r') = Inr (v, r')"
      using "11.IH"(1) sv t by blast
    show "parse_members (join '','' (stringify_members ((k, v) # kvs)) @ CHR ''}'' # r)
            = Inr ((k, v) # kvs, r)"
    proof (cases "kvs = []")
      case True
      have "parse_members (quote k @ CHR '':'' # (t @ CHR ''}'' # r)) = Inr ([(k, v)], r)"
        by (rule parse_members_last) (simp add: pv follow_ok_sep)
      with True t show ?thesis by simp
    next
      case False
      define rest where "rest = join '','' (stringify_members kvs) @ CHR ''}'' # r"
      have pr: "parse_members rest = Inr (kvs, r)"
        using "11.IH"(2) skvs False by (simp add: rest_def)
      have "parse_members (quote k @ CHR '':'' # (t @ CHR '','' # rest)) = Inr ((k, v) # kvs, r)"
        by (rule parse_members_more [OF _ _ pr]) (simp_all add: pv follow_ok_sep)
      with False t skvs show ?thesis
        by (simp add: join_Cons stringify_members_Nil_iff rest_def)
    qed
  qed
qed

lemma JSON_parse_stringify:
  assumes "serializable v" "JSON_stringify v = Some t"
  shows "JSON_parse t = Inr v"
proof -
  have "follow_ok []" by (simp add: follow_ok_def)
  with parse_stringify_mutual(1) [of v] assms have "parse_value (t @ []) = Inr (v, [])"
    by blast
  then show ?thesis by (simp add: JSON_parse_def skip_ws_def)
qed


section \<open>Properties of the response cache\<close>







text \<open>
  Claim C6. For every key \<open>k\<close>, value \<open>v\<close> and \<open>ttl_seconds \<le> 0\<close>, \<open>set(k, v, ttl_seconds)\<close>
  leaves the store unchanged (nothing is written under \<open>k\<close>, no entry is deleted or
  modified); in particular \<open>set(k, v, 0)\<close> followed by \<open>get(k)\<close> returns \<open>undefined\<close>
  when there was no entry under \<open>k\<close>.
\<close>

theorem set_nonpositive_ttl_noop:
  "(secs \<le> 0 \<longrightarrow> FileCache_set dir now fs k v secs = fs)
   \<and> (fs (getFilePath dir k) = None \<longrightarrow>
        FileCache_get rt dir now' (FileCache_set dir now fs k v 0) k = (JUndefined, fs))"
  by (simp add: FileCache_set_def FileCache_get_def)

theorem set_nonpositive_ttl_noop_witness:
  "(-5::int) \<le> 0
   \<and> FileCache_set ''./.cache'' 1700000000000 [''./.cache/k1.cache'' \<mapsto> ''junk''] ''k1'' sample_page (-5)
       = [''./.cache/k1.cache'' \<mapsto> ''junk'']
   \<and> Map.empty (getFilePath ''./.cache'' ''k1'') = (None :: string option)
   \<and> FileCache_get stub_runtime ''./.cache'' 1700000000001
         (FileCache_set ''./.cache'' 1700000000000 Map.empty ''k1'' sample_page 0) ''k1''
       = (JUndefined, Map.empty)"
proof -
  note a = set_nonpositive_ttl_noop [where secs = "-5" and dir = "''./.cache''"
      and now = 1700000000000 and fs = "[''./.cache/k1.cache'' \<mapsto> ''junk'']" and k = "''k1''"
      and v = sample_page]
  note b = set_nonpositive_ttl_noop [where dir = "''./.cache''" and now = 1700000000000
      and fs = Map.empty and k = "''k1''" and v = sample_page and rt = stub_runtime
      and now' = 1700000000001]
  from a [THEN conjunct1] have 1: "FileCache_set ''./.cache'' 1700000000000 [''./.cache/k1.cache'' \<mapsto> ''junk''] ''k1''
      sample_page (-5) = [''./.cache/k1.cache'' \<mapsto> ''junk'']"
    by simp
  from b [THEN conjunct2] have 2: "FileCache_get stub_runtime ''./.cache'' 1700000000001
         (FileCache_set ''./.cache'' 1700000000000 Map.empty ''k1'' sample_page 0) ''k1''
       = (JUndefined, Map.empty)"
    by simp
  from 1 2 show ?thesis by simp
qed




section \<open>Properties of the proxy rotation\<close>

lemma getNextProxy_nonempty:
  "proxies w \<noteq> [] \<Longrightarrow>
     getNextProxy w = (Some (proxies w ! (index w mod length (proxies w))), w\<lparr>index := index w + 1\<rparr>)"
  by (simp add: getNextProxy_def Let_def)

lemma acquire_results:
  "proxies w \<noteq> [] \<Longrightarrow>
     acquire n w =
       (map (\<lambda>j. Some (proxies w ! ((index w + j) mod length (proxies w)))) [0..<n],
        w\<lparr>index := index w + n\<rparr>)"
proof (induction n arbitrary: w)
  case 0
  then show ?case by simp
next
  case (Suc n)
  let ?w1 = "w\<lparr>index := index w + 1\<rparr>"
  have "proxies ?w1 \<noteq> []" using Suc.prems by simp
  from Suc.IH [OF this] Suc.prems show ?case
    by (simp add: getNextProxy_nonempty map_upt_Suc del: upt_Suc)
qed

lemma cyclic_nth_rotate:
  assumes "xs \<noteq> []"
  shows "map (\<lambda>j. xs ! ((i + j) mod length xs)) [0..<length xs] = rotate (i mod length xs) xs"
proof (rule nth_equalityI)
  show "length (map (\<lambda>j. xs ! ((i + j) mod length xs)) [0..<length xs])
          = length (rotate (i mod length xs) xs)"
    by simp
next
  fix k
  assume "k < length (map (\<lambda>j. xs ! ((i + j) mod length xs)) [0..<length xs])"
  then have k: "k < length xs" by simp
  then show "map (\<lambda>j. xs ! ((i + j) mod length xs)) [0..<length xs] ! k
               = rotate (i mod length xs) xs ! k"
    by (simp add: nth_rotate mod_add_left_eq)
qed

lemma cyclic_indices:
  assumes "0 < n"
  shows "map (\<lambda>j. (i + j) mod n) [0..<n] = rotate (i mod n) [0..<n]"
proof -
  have ne: "[0..<n] \<noteq> []" using assms by simp
  have "map (\<lambda>j. [0..<n] ! ((i + j) mod length [0..<n])) [0..<length [0..<n]]
          = map (\<lambda>j. (i + j) mod n) [0..<n]"
    using assms by simp
  with cyclic_nth_rotate [OF ne, of i] show ?thesis by simp
qed

text \<open>
  Claim C4. For every non-empty proxy pool of size \<open>N\<close>, \<open>N\<close> consecutive acquisitions
  return the \<open>N\<close> pool entries in cyclic order of pool index, starting at the counter
  modulo \<open>N\<close>: the list of results is the pool rotated, so each index is used exactly
  once; and the \<open>(N+1)\<close>-th acquisition returns the same entry as the first.
\<close>

theorem round_robin:
  assumes "proxies w \<noteq> []"
  shows "fst (acquire (length (proxies w)) w)
           = map Some (rotate (index w mod length (proxies w)) (proxies w))
         \<and> map (\<lambda>j. (index w + j) mod length (proxies w)) [0..<length (proxies w)]
           = rotate (index w mod length (proxies w)) [0..<length (proxies w)]
         \<and> distinct (map (\<lambda>j. (index w + j) mod length (proxies w)) [0..<length (proxies w)])
         \<and> fst (acquire (length (proxies w) + 1) w) ! length (proxies w)
           = fst (acquire (length (proxies w) + 1) w) ! 0
         \<and> index (snd (acquire (length (proxies w)) w)) = index w + length (proxies w)"
proof -
  let ?N = "length (proxies w)"
  have N: "0 < ?N" using assms by simp
  have "fst (acquire ?N w) = map (\<lambda>j. Some (proxies w ! ((index w + j) mod ?N))) [0..<?N]"
    by (simp add: acquire_results [OF assms])
  also have "\<dots> = map Some (map (\<lambda>j. proxies w ! ((index w + j) mod ?N)) [0..<?N])"
    by (simp add: comp_def)
  also have "\<dots> = map Some (rotate (index w mod ?N) (proxies w))"
    by (simp only: cyclic_nth_rotate [OF assms])
  finally have 1: "fst (acquire ?N w) = map Some (rotate (index w mod ?N) (proxies w))" .
  have 2: "map (\<lambda>j. (index w + j) mod ?N) [0..<?N] = rotate (index w mod ?N) [0..<?N]"
    by (rule cyclic_indices [OF N])
  have 3: "distinct (map (\<lambda>j. (index w + j) mod ?N) [0..<?N])"
    by (simp only: 2 distinct_rotate distinct_upt)
  define g where "g = (\<lambda>j. Some (proxies w ! ((index w + j) mod ?N)))"
  have acq: "fst (acquire (?N + 1) w) = map g [0..<?N + 1]"
    unfolding g_def by (simp only: acquire_results [OF assms] fst_conv)
  have "map g [0..<?N + 1] ! ?N = g ?N" "map g [0..<?N + 1] ! 0 = g 0"
    by (simp_all only: nth_map length_upt nth_upt) simp_all
  moreover have "g ?N = g 0" by (simp add: g_def)
  ultimately have 4: "fst (acquire (?N + 1) w) ! ?N = fst (acquire (?N + 1) w) ! 0"
    by (simp only: acq)
  have 5: "index (snd (acquire ?N w)) = index w + ?N"
    by (simp add: acquire_results [OF assms])
  from 1 2 3 4 5 show ?thesis by blast
qed

theorem round_robin_witness:
  "proxies (start_world\<lparr>proxies := three_proxies, index := 7\<rparr>) \<noteq> []
   \<and> fst (acquire 3 (start_world\<lparr>proxies := three_proxies, index := 7\<rparr>))
       = [Some (one_proxy\<lparr>proxy_address := ''10.0.0.2''\<rparr>),
          Some (one_proxy\<lparr>proxy_address := ''10.0.0.3''\<rparr>), Some one_proxy]
   \<and> fst (acquire 4 (start_world\<lparr>proxies := three_proxies, index := 7\<rparr>)) ! 3
       = fst (acquire 4 (start_world\<lparr>proxies := three_proxies, index := 7\<rparr>)) ! 0
   \<and> index (snd (acquire 3 (start_world\<lparr>proxies := three_proxies, index := 7\<rparr>))) = 10"
proof -
  let ?w = "start_world\<lparr>proxies := three_proxies, index := 7\<rparr>"
  have ne: "proxies ?w \<noteq> []" by (simp add: three_proxies_def)
  have len: "length three_proxies = 3" by (simp add: three_proxies_def)
  have rot: "rotate (7 mod 3) three_proxies
      = [one_proxy\<lparr>proxy_address := ''10.0.0.2''\<rparr>, one_proxy\<lparr>proxy_address := ''10.0.0.3''\<rparr>, one_proxy]"
    by code_simp
  have px: "proxies ?w = three_proxies" "index ?w = 7" by simp_all
  note r = round_robin [OF ne, unfolded px len]
  from r have "fst (acquire 3 ?w) = map Some (rotate (7 mod 3) three_proxies)" by blast
  then have a: "fst (acquire 3 ?w)
       = [Some (one_proxy\<lparr>proxy_address := ''10.0.0.2''\<rparr>),
          Some (one_proxy\<lparr>proxy_address := ''10.0.0.3''\<rparr>), Some one_proxy]"
    by (simp only: rot list.map)
  from r have "fst (acquire (3 + 1) ?w) ! 3 = fst (acquire (3 + 1) ?w) ! 0" by blast
  then have b: "fst (acquire 4 ?w) ! 3 = fst (acquire 4 ?w) ! 0" by simp
  from r have "index (snd (acquire 3 ?w)) = 7 + 3" by blast
  then have c: "index (snd (acquire 3 ?w)) = 10" by simp
  from ne a b c show ?thesis by blast
qed

section \<open>Properties of the request fingerprint\<close>

lemma keyInput_serializable: "serializable (keyInput url headers)"
  by (simp add: keyInput_def)

lemma JSON_parse_hash_input: "JSON_parse (hash_input url headers) = Inr (keyInput url headers)"
proof -
  obtain t where t: "JSON_stringify (keyInput url headers) = Some t"
    using serializable_stringify [OF keyInput_serializable] by blast
  from JSON_parse_stringify [OF keyInput_serializable t] t show ?thesis
    by (simp add: hash_input_def)
qed

lemma hash_input_inject:
  "hash_input url h = hash_input url' h' \<longleftrightarrow> url = url' \<and> cookie_of h = cookie_of h'"
proof
  assume "hash_input url h = hash_input url' h'"
  then have "JSON_parse (hash_input url h) = JSON_parse (hash_input url' h')" by simp
  then have "keyInput url h = keyInput url' h'" by (simp add: JSON_parse_hash_input)
  then show "url = url' \<and> cookie_of h = cookie_of h'"
    by (simp add: keyInput_def cookie_of_def)
next
  assume "url = url' \<and> cookie_of h = cookie_of h'"
  then show "hash_input url h = hash_input url' h'"
    by (simp add: hash_input_def keyInput_def cookie_of_def)
qed

theorem fingerprint_empty_cookie_counterexample:
  "\<forall>rt url. map_of [(''Cookie'', '''')] ''Cookie'' \<noteq> map_of ([] :: (string \<times> string) list) ''Cookie''
     \<and> getRequestHash rt url [(''Cookie'', '''')] = getRequestHash rt url []"
  by (simp add: getRequestHash_def hash_input_def keyInput_def)

theorem fingerprint_function_of_url_and_cookie:
  "(cookie_of h = cookie_of h' \<longrightarrow> getRequestHash rt url h = getRequestHash rt url h')
   \<and> getRequestHash rt url h = sha256_hex rt (hash_input url h)
   \<and> (cookie_of h \<noteq> cookie_of h' \<longrightarrow> hash_input url h \<noteq> hash_input url h')
   \<and> (map_of h ''Cookie'' = Some c \<longrightarrow> cookie_of h = c)
   \<and> (map_of h ''Cookie'' = None \<longrightarrow> cookie_of h = [])"
  using hash_input_inject [of url h url h']
  by (auto simp: getRequestHash_def cookie_of_def)

theorem fingerprint_function_of_url_and_cookie_witness:
  "cookie_of [(''User-Agent'', ''Mozilla/5.0''), (''Cookie'', ''a'')]
     = cookie_of [(''Cookie'', ''a''), (''Accept'', ''text/html'')]
   \<and> getRequestHash stub_runtime ''https://example.com''
        [(''User-Agent'', ''Mozilla/5.0''), (''Cookie'', ''a'')]
     = getRequestHash stub_runtime ''https://example.com''
        [(''Cookie'', ''a''), (''Accept'', ''text/html'')]
   \<and> cookie_of [(''Cookie'', ''a'')] \<noteq> cookie_of [(''Cookie'', ''b'')]
   \<and> hash_input ''https://example.com'' [(''Cookie'', ''a'')]
     \<noteq> hash_input ''https://example.com'' [(''Cookie'', ''b'')]
   \<and> map_of [(''Cookie'', ''a'')] ''Cookie'' = Some ''a''
   \<and> map_of ([] :: (string \<times> string) list) ''Cookie'' = None
   \<and> cookie_of [] = []"
proof -
  note a = fingerprint_function_of_url_and_cookie [where
      h = "[(''User-Agent'', ''Mozilla/5.0''), (''Cookie'', ''a'')]"
      and h' = "[(''Cookie'', ''a''), (''Accept'', ''text/html'')]"
      and rt = stub_runtime and url = "''https://example.com''"]
  note b = fingerprint_function_of_url_and_cookie [where
      h = "[(''Cookie'', ''a'')]" and h' = "[(''Cookie'', ''b'')]"
      and url = "''https://example.com''" and c = "''a''"]
  have c1: "cookie_of [(''User-Agent'', ''Mozilla/5.0''), (''Cookie'', ''a'')]
     = cookie_of [(''Cookie'', ''a''), (''Accept'', ''text/html'')]"
    by (simp add: cookie_of_def)
  have c2: "cookie_of [(''Cookie'', ''a'')] \<noteq> cookie_of [(''Cookie'', ''b'')]"
    by (simp add: cookie_of_def)
  from a c1 have r1: "getRequestHash stub_runtime ''https://example.com''
        [(''User-Agent'', ''Mozilla/5.0''), (''Cookie'', ''a'')]
     = getRequestHash stub_runtime ''https://example.com''
        [(''Cookie'', ''a''), (''Accept'', ''text/html'')]"
    by blast
  from b c2 have r2: "hash_input ''https://example.com'' [(''Cookie'', ''a'')]
     \<noteq> hash_input ''https://example.com'' [(''Cookie'', ''b'')]"
    by blast
  from c1 c2 r1 r2 show ?thesis by (simp add: cookie_of_def)
qed


section \<open>Properties of the fetch client\<close>

lemma getProxyAgent_frame:
  assumes "getProxyAgent env w = (r, w')"
  shows "fetch_log w' = fetch_log w \<and> errors w' = errors w \<and> files w' = files w
         \<and> clock w' = clock w \<and> sent w' = sent w"
  using assms
  by (auto simp: getProxyAgent_def getProxyList_def getNextProxy_def Let_def
      split: if_splits sum.splits option.splits prod.splits)

lemma getProxyAgent_nonempty:
  assumes "proxies w \<noteq> []"
  shows "getProxyAgent env w
           = (Inr (proxyUrl (proxies w ! (index w mod length (proxies w)))), w\<lparr>index := index w + 1\<rparr>)"
  using assms by (simp add: getProxyAgent_def getNextProxy_def Let_def)

lemma getProxyAgent_credential_failure:
  assumes "proxies w = []" "credential_service env (pool_requests w) = Inl e"
  shows "fst (getProxyAgent env w) = Inl e"
  using assms by (simp add: getProxyAgent_def getProxyList_def Let_def)

lemma fetch_cache_hit:
  assumes "FileCache_get rt cacheDir (clock w) (files w) (getRequestHash rt url h) = (v, fs)"
    and "truthy v"
  shows "fetch rt env url h secs w = (Resolved v, w\<lparr>fetch_log := fetch_log w @ [url], files := fs\<rparr>)"
  using assms by (simp add: fetch_def Let_def)


lemma fetch_rejected:
  assumes "fetch rt env url h secs w = (Rejected e, w')"
  shows "http_get env url (length (sent w)) = Inl e \<and> (\<exists>agent. sent w' = sent w @ [(url, agent)])"
proof -
  obtain v fs where g: "FileCache_get rt cacheDir (clock w) (files w) (getRequestHash rt url h) = (v, fs)"
    by (cases "FileCache_get rt cacheDir (clock w) (files w) (getRequestHash rt url h)")
  let ?w0 = "w\<lparr>fetch_log := fetch_log w @ [url], files := fs\<rparr>"
  obtain a w1 where p: "getProxyAgent env ?w0 = (a, w1)" by (cases "getProxyAgent env ?w0")
  from getProxyAgent_frame [OF p] have s: "sent w1 = sent w" by simp
  from assms g p s show ?thesis
    by (auto simp: fetch_def Let_def axios_get_def split: if_splits sum.splits)
qed

lemma fetch_request_failure:
  assumes "FileCache_get rt cacheDir (clock w) (files w) (getRequestHash rt url h) = (v, fs)"
    and "\<not> truthy v" and "proxies w \<noteq> []"
    and "http_get env url (length (sent w)) = Inl e"
  shows "fst (fetch rt env url h secs w) = Rejected e"
  using assms by (simp add: fetch_def Let_def getProxyAgent_nonempty axios_get_def)

lemma fetch_credential_failure:
  assumes "FileCache_get rt cacheDir (clock w) (files w) (getRequestHash rt url h) = (v, fs)"
    and "\<not> truthy v" and "proxies w = []"
    and "credential_service env (pool_requests w) = Inl e"
  shows "fst (fetch rt env url h secs w) = Pending"
proof -
  let ?w0 = "w\<lparr>fetch_log := fetch_log w @ [url], files := fs\<rparr>"
  have "fst (getProxyAgent env ?w0) = Inl e"
    by (rule getProxyAgent_credential_failure) (simp_all add: assms)
  then obtain w1 where "getProxyAgent env ?w0 = (Inl e, w1)"
    by (cases "getProxyAgent env ?w0") simp
  with assms show ?thesis by (simp add: fetch_def Let_def)
qed

lemma fetch_pool_loaded:
  assumes "proxies w \<noteq> []" "fetch rt env url h secs w = (r, w')"
  shows "r \<noteq> Pending \<and> proxies w' = proxies w"
  using assms
  by (auto simp: fetch_def Let_def getProxyAgent_nonempty axios_get_def
      split: prod.splits if_splits sum.splits)

text \<open>
  Claim C1, at a failing input. The first \<open>fetch\<close> of a URL whose response body is the
  empty string writes a live entry for it (ttl 604800 s); the entry is well-formed
  and \<open>get\<close> returns its value \<open>\"\"\<close>. The second \<open>fetch\<close> of the same URL, 150 ms later,
  does not return from the cache: \<open>if (cachedResult)\<close> is false for the empty string, a
  second proxy identity is acquired and a second request is sent.
\<close>

theorem fetch_ignores_falsy_cached_value:
  "(case fetch stub_runtime empty_body_env ''https://example.com/a'' [] 604800 start_world of
      (r1, w1) \<Rightarrow>
        r1 = Resolved (JStr [])
        \<and> length (sent w1) = 1 \<and> index w1 = 1 \<and> clock w1 = 1700000000150
        \<and> files w1 (getFilePath cacheDir (getRequestHash stub_runtime ''https://example.com/a'' []))
            = Some ''{\"type\":\"string\",\"value\":\"\",\"expiresAt\":1700604800150}''
        \<and> fst (FileCache_get stub_runtime cacheDir (clock w1) (files w1)
                 (getRequestHash stub_runtime ''https://example.com/a'' [])) = JStr []
        \<and> (case fetch stub_runtime empty_body_env ''https://example.com/a'' [] 604800 w1 of
              (r2, w2) \<Rightarrow> r2 = Resolved (JStr []) \<and> length (sent w2) = 2 \<and> index w2 = 2))"
  by code_simp

text \<open>
  Claim C2, at a failing input. With an empty pool and a credential service whose call
  fails, \<open>getProxyAgent()\<close> rejects; \<open>fetch\<close> attaches no rejection handler to that promise
  (only the request's promise has \<open>.catch(reject)\<close>), so the promise \<open>fetch\<close> returned is
  never settled: the failure does not reach the caller.
\<close>

theorem fetch_pending_on_credential_failure:
  "fst (getProxyAgent no_credentials_env start_world) = Inl CredentialError
   \<and> fst (fetch stub_runtime no_credentials_env ''https://example.com/a'' [] 604800 start_world)
       = Pending
   \<and> sent (snd (fetch stub_runtime no_credentials_env ''https://example.com/a'' [] 604800 start_world))
       = []"
  by code_simp


section \<open>Properties of the retry wrappers\<close>

declare fetchPage.simps [simp del] fetchAgentBio.simps [simp del]

lemma sleep_frame [simp]:
  "fetch_log (sleep ms w) = fetch_log w" "errors (sleep ms w) = errors w"
  "proxies (sleep ms w) = proxies w"
  by (simp_all add: sleep_def)










section \<open>The detail record\<close>

lemma map_of_foldl_update:
  "map_of (foldl (\<lambda>acc kv. AList.update (fst kv) (snd kv) acc) acc kvs)
     = map_of acc ++ map_of (rev kvs)"
proof (induction kvs arbitrary: acc)
  case Nil
  then show ?case by simp
next
  case (Cons kv kvs)
  have "map_of (AList.update (fst kv) (snd kv) acc) ++ map_of (rev kvs)
          = map_of acc ++ ([fst kv \<mapsto> snd kv] ++ map_of (rev kvs))"
    by (rule ext) (auto simp: update_conv' map_add_def split: option.splits)
  with Cons.IH [of "AList.update (fst kv) (snd kv) acc"] show ?case
    by (cases kv) simp
qed

lemma map_of_rev_distinct: "distinct (map fst kvs) \<Longrightarrow> map_of (rev kvs) = map_of kvs"
  by (rule map_of_inject_set [THEN iffD2]) (simp_all add: rev_map [symmetric])

lemma record_id:
  "get_prop (build_record agentId d) ''id''
     = (case map_of (rev (spread_props d)) ''id'' of None \<Rightarrow> agentId | Some x \<Rightarrow> x)"
  by (simp add: build_record_def get_prop_def map_of_foldl_update map_add_def split: option.splits)

lemma fetchAgentBio_resolved:
  assumes "js_ToString agentId = Some idText"
    and "fetch rt env (buildBioUrl idText) [] (ttl cfg) w = (Resolved res, w1)"
    and "\<not> nullish res"
  shows "fetchAgentBio rt env cfg agentId attempt w
           = (Resolved (build_record agentId (get_prop res ''data'')), w1)"
  by (subst fetchAgentBio.simps) (simp add: bio_attempt_def assms)

text \<open>
  Claim C10 fails as stated in its ``only if'' half: when the detail payload has an
  \<open>id\<close> key whose value is the requested identifier (here \<open>7\<close>), the payload contains an
  \<open>id\<close> key and the emitted record's \<open>id\<close> still equals the requested identifier.
\<close>

theorem record_id_same_value_counterexample:
  "fst (fetchAgentBio stub_runtime bio_env no_cache_config (JNum 7) 1 start_world)
     = Resolved (JObj [(''id'', JNum 7), (''firstName'', JStr ''Ann'')])
   \<and> get_prop (JObj [(''id'', JNum 7), (''firstName'', JStr ''Ann'')]) ''id'' = JNum 7
   \<and> map_of [(''id'', JNum 7), (''firstName'', JStr ''Ann'')] ''id'' \<noteq> None"
proof -
  have c: "ttl no_cache_config = - 1"
    by (simp add: no_cache_config_def load_config_def or_default_def)
  have t: "js_ToString (JNum 7) = Some ''7''" by code_simp
  have "fetchAgentBio stub_runtime bio_env no_cache_config (JNum 7) 1 start_world
      = (Resolved (build_record (JNum 7) (JObj [(''id'', JNum 7), (''firstName'', JStr ''Ann'')])),
         snd (fetch stub_runtime bio_env (buildBioUrl ''7'') [] (ttl no_cache_config) start_world))"
    by (rule fetchAgentBio_resolved [OF t, where res = "JObj [(''data'', JObj [(''id'', JNum 7), (''firstName'', JStr ''Ann'')])]", simplified get_prop_def, simplified])
      (simp_all add: fetch_def FileCache_get_def FileCache_set_def getProxyAgent_def getProxyList_def
        getNextProxy_def axios_get_def Let_def c bio_env_def start_world_def nullish_def)
  moreover have "build_record (JNum 7) (JObj [(''id'', JNum 7), (''firstName'', JStr ''Ann'')])
      = JObj [(''id'', JNum 7), (''firstName'', JStr ''Ann'')]"
    by (simp add: build_record_def spread_props_def)
  ultimately show ?thesis by (simp add: get_prop_def)
qed

text \<open>
  Claim C10, amended. For every successful detail fetch, \<open>fetchAgentBio\<close> resolves with
  the record \<open>{id: agentId, ...res.data}\<close>. Its \<open>id\<close> field is the payload's \<open>id\<close> when the
  payload has an \<open>id\<close> key (the payload silently overwrites the requested identifier)
  and the requested identifier otherwise; so it equals the requested identifier if and
  only if the payload has no \<open>id\<close> key or the payload's \<open>id\<close> is that identifier.
\<close>

theorem record_id_from_payload:
  assumes "js_ToString agentId = Some idText"
    and "fetch rt env (buildBioUrl idText) [] (ttl cfg) w = (Resolved res, w1)"
    and "\<not> nullish res"
    and "get_prop res ''data'' = JObj kvs" and "distinct (map fst kvs)"
  shows "fetchAgentBio rt env cfg agentId 1 w = (Resolved (build_record agentId (JObj kvs)), w1)
         \<and> build_record agentId (JObj kvs)
             = JObj (foldl (\<lambda>acc kv. AList.update (fst kv) (snd kv) acc) [(''id'', agentId)] kvs)
         \<and> get_prop (build_record agentId (JObj kvs)) ''id''
             = (case map_of kvs ''id'' of None \<Rightarrow> agentId | Some x \<Rightarrow> x)
         \<and> (get_prop (build_record agentId (JObj kvs)) ''id'' = agentId
              \<longleftrightarrow> map_of kvs ''id'' = None \<or> map_of kvs ''id'' = Some agentId)"
proof -
  have 1: "fetchAgentBio rt env cfg agentId 1 w = (Resolved (build_record agentId (JObj kvs)), w1)"
    using fetchAgentBio_resolved [OF assms(1,2,3)] assms(4) by simp
  have 2: "build_record agentId (JObj kvs)
             = JObj (foldl (\<lambda>acc kv. AList.update (fst kv) (snd kv) acc) [(''id'', agentId)] kvs)"
    by (simp add: build_record_def spread_props_def)
  have 3: "get_prop (build_record agentId (JObj kvs)) ''id''
             = (case map_of kvs ''id'' of None \<Rightarrow> agentId | Some x \<Rightarrow> x)"
    by (simp add: record_id spread_props_def map_of_rev_distinct [OF assms(5)])
  have 4: "get_prop (build_record agentId (JObj kvs)) ''id'' = agentId
              \<longleftrightarrow> map_of kvs ''id'' = None \<or> map_of kvs ''id'' = Some agentId"
    by (auto simp: 3 split: option.splits)
  from 1 2 3 4 show ?thesis by blast
qed

theorem record_id_from_payload_witness:
  "js_ToString (JNum 3102) = Some ''3102''
   \<and> fst (fetch stub_runtime bio_env (buildBioUrl ''3102'') [] (ttl no_cache_config) start_world)
       = Resolved (JObj [(''data'', JObj [(''id'', JNum 7), (''firstName'', JStr ''Ann'')])])
   \<and> \<not> nullish (JObj [(''data'', JObj [(''id'', JNum 7), (''firstName'', JStr ''Ann'')])])
   \<and> get_prop (JObj [(''data'', JObj [(''id'', JNum 7), (''firstName'', JStr ''Ann'')])]) ''data''
       = JObj [(''id'', JNum 7), (''firstName'', JStr ''Ann'')]
   \<and> distinct (map fst [(''id'', JNum 7), (''firstName'', JStr ''Ann'')])
   \<and> fst (fetchAgentBio stub_runtime bio_env no_cache_config (JNum 3102) 1 start_world)
       = Resolved (JObj [(''id'', JNum 7), (''firstName'', JStr ''Ann'')])
   \<and> get_prop (build_record (JNum 3102) (JObj [(''id'', JNum 7), (''firstName'', JStr ''Ann'')])) ''id''
       = JNum 7"
proof -
  let ?res = "JObj [(''data'', JObj [(''id'', JNum 7), (''firstName'', JStr ''Ann'')])]"
  let ?kvs = "[(''id'', JNum 7), (''firstName'', JStr ''Ann'')]"
  let ?w1 = "snd (fetch stub_runtime bio_env (buildBioUrl ''3102'') [] (ttl no_cache_config) start_world)"
  have c: "ttl no_cache_config = - 1"
    by (simp add: no_cache_config_def load_config_def or_default_def)
  have t: "js_ToString (JNum 3102) = Some ''3102''" by code_simp
  have f: "fetch stub_runtime bio_env (buildBioUrl ''3102'') [] (ttl no_cache_config) start_world
      = (Resolved ?res, ?w1)"
    by (simp add: fetch_def FileCache_get_def FileCache_set_def getProxyAgent_def getProxyList_def
        getNextProxy_def axios_get_def Let_def c bio_env_def start_world_def)
  have n: "\<not> nullish ?res" by (simp add: nullish_def)
  have d: "get_prop ?res ''data'' = JObj ?kvs" by (simp add: get_prop_def)
  have dk: "distinct (map fst ?kvs)" by simp
  have br: "build_record (JNum 3102) (JObj ?kvs) = JObj ?kvs"
    by (simp add: build_record_def spread_props_def)
  have f1: "fst (fetch stub_runtime bio_env (buildBioUrl ''3102'') [] (ttl no_cache_config) start_world)
       = Resolved ?res"
    by (subst f) (simp only: fst_conv)
  from record_id_from_payload [OF t f n d dk]
  have r: "fst (fetchAgentBio stub_runtime bio_env no_cache_config (JNum 3102) 1 start_world)
       = Resolved (JObj ?kvs)"
    "get_prop (build_record (JNum 3102) (JObj ?kvs)) ''id'' = JNum 7"
    by (simp_all add: br)
  show ?thesis by (intro conjI) (rule t f1 n d dk r)+
qed


end
